theory Spec2Isabelle
  imports Complex_Main "HOL-Library.Monad_Syntax" "HOL-Library.Multiset"
begin

section \<open>Machine arithmetic\<close>

text \<open>
  The kernel is OpenCL C: \<open>int\<close> is a 32-bit two's complement integer. Integer arithmetic
  of the kernel is written on \<open>int\<close> with the wrap-around spelled out by \<open>int32\<close>.
  \<open>size_t\<close> is taken as 64 bits wide.
\<close>

definition int32 :: "int \<Rightarrow> int" where
  "int32 x = (x + 2 ^ 31) mod 2 ^ 32 - 2 ^ 31"

definition size_t :: "int \<Rightarrow> nat" where
  "size_t x = nat (x mod 2 ^ 64)"

text \<open>
  Single-precision arithmetic is a parameter of the model: a value of \<open>'f float_ops\<close>
  supplies the rounding of a decimal literal, the four operations and the comparison
  \<open>>\<close>. Nothing is assumed of them, so every theorem below holds for IEEE binary32, where
  \<open>fgt\<close> is false as soon as one side is a NaN. Values of type \<open>'f\<close> stand for bit
  patterns: equality of two fields is cell-for-cell identity.
\<close>

record 'f float_ops =
  lit :: "rat \<Rightarrow> 'f"
  fadd :: "'f \<Rightarrow> 'f \<Rightarrow> 'f"
  fsub :: "'f \<Rightarrow> 'f \<Rightarrow> 'f"
  fmul :: "'f \<Rightarrow> 'f \<Rightarrow> 'f"
  fdiv :: "'f \<Rightarrow> 'f \<Rightarrow> 'f"
  fgt :: "'f \<Rightarrow> 'f \<Rightarrow> bool"

text \<open>
  Exact rational arithmetic: it agrees with binary32 on every computation whose operands
  and results are representable (small integers and quarters in the examples below).
\<close>

definition exact_ops :: "rat float_ops" where
  "exact_ops = \<lparr>lit = (\<lambda>q. q), fadd = (+), fsub = (-), fmul = (*), fdiv = (/),
                fgt = (\<lambda>a b. b < a)\<rparr>"

section \<open>Device memory\<close>

text \<open>
  The four \<open>cl::Buffer\<close> objects of \<open>main\<close> are handles; device memory maps a handle to
  the floats it holds. A read or write outside a buffer has no defined result: \<open>None\<close>.
\<close>

datatype buffer = bufferCurrent | bufferPrevious | bufferNext | bufferElevation

type_synonym 'f memory = "buffer \<Rightarrow> 'f list"

definition rd :: "'f memory \<Rightarrow> buffer \<Rightarrow> int \<Rightarrow> 'f option" where
  "rd m b idx = (if 0 \<le> idx \<and> idx < int (length (m b)) then Some (m b ! nat idx) else None)"

definition wr :: "'f memory \<Rightarrow> buffer \<Rightarrow> int \<Rightarrow> 'f \<Rightarrow> 'f memory option" where
  "wr m b idx v =
     (if 0 \<le> idx \<and> idx < int (length (m b)) then Some (m(b := (m b)[nat idx := v])) else None)"

section \<open>The kernel \<open>wave_update\<close>\<close>

text \<open>
  The arguments bound by \<open>kernel.setArg\<close>: four buffer handles and three scalars.
\<close>

record 'f kernel =
  k_current :: buffer
  k_previous :: buffer
  k_next :: buffer
  k_elevation :: buffer
  k_WIDTH :: int
  k_HEIGHT :: int
  k_dt_dx2 :: 'f

text \<open>
  One work item. \<open>gid = (get_global_id(0), get_global_id(1))\<close>, already converted to
  \<open>int\<close>. The index is computed before the bounds check, as in the source.
\<close>

definition wave_update :: "'f float_ops \<Rightarrow> 'f kernel \<Rightarrow> int \<times> int \<Rightarrow> 'f memory \<Rightarrow> 'f memory option" where
  "wave_update ops k gid m =
     (let i = snd gid;
          j = fst gid;
          WIDTH = k_WIDTH k;
          HEIGHT = k_HEIGHT k;
          idx = int32 (int32 (i * WIDTH) + j)
      in if i < 0 \<or> i \<ge> HEIGHT \<or> j < 0 \<or> j \<ge> WIDTH then Some m
         else do {
           e \<leftarrow> rd m (k_elevation k) idx;
           if fgt ops e (lit ops 0) then do {
             c \<leftarrow> rd m (k_current k) idx;
             wr m (k_next k) idx c
           }
           else if i = 0 \<or> i = int32 (HEIGHT - 1) \<or> j = 0 \<or> j = int32 (WIDTH - 1) then
             wr m (k_next k) idx (lit ops 0)
           else do {
             c \<leftarrow> rd m (k_current k) idx;
             p \<leftarrow> rd m (k_previous k) idx;
             up \<leftarrow> rd m (k_current k) (int32 (idx - WIDTH));
             down \<leftarrow> rd m (k_current k) (int32 (idx + WIDTH));
             left \<leftarrow> rd m (k_current k) (int32 (idx - 1));
             right \<leftarrow> rd m (k_current k) (int32 (idx + 1));
             c' \<leftarrow> rd m (k_current k) idx;
             wr m (k_next k) idx
               (fadd ops (fsub ops (fmul ops (lit ops 2) c) p)
                  (fmul ops (k_dt_dx2 k)
                     (fsub ops (fadd ops (fadd ops (fadd ops up down) left) right)
                        (fmul ops (lit ops 4) c'))))
           }
         })"

text \<open>
  Work items of \<open>cl::NDRange(gw, gh)\<close>: dimension 0 is the column, dimension 1 the row.
  \<open>run_items\<close> executes a list of work items one after the other; the order of the
  list is the schedule.
\<close>

definition work_items :: "nat \<Rightarrow> nat \<Rightarrow> (int \<times> int) list" where
  "work_items gw gh = concat (map (\<lambda>g1. map (\<lambda>g0. (int32 (int g0), int32 (int g1))) [0..<gw]) [0..<gh])"

fun run_items :: "'f float_ops \<Rightarrow> 'f kernel \<Rightarrow> (int \<times> int) list \<Rightarrow> 'f memory \<Rightarrow> 'f memory option" where
  "run_items ops k [] m = Some m"
| "run_items ops k (g # gs) m =
     (case wave_update ops k g m of None \<Rightarrow> None | Some m' \<Rightarrow> run_items ops k gs m')"

section \<open>The command queue\<close>

text \<open>
  The host enqueues commands on an in-order queue; \<open>finish\<close> runs them in the order of
  submission. A command that the runtime rejects (empty range, copy larger than a
  buffer) or a kernel that leaves its buffers aborts the run: \<open>None\<close>.
\<close>

datatype 'f command =
  NDRangeKernel "'f kernel" nat nat
| CopyBuffer buffer buffer nat

fun exec :: "'f float_ops \<Rightarrow> 'f command \<Rightarrow> 'f memory \<Rightarrow> 'f memory option" where
  "exec ops (NDRangeKernel k gw gh) m =
     (if gw = 0 \<or> gh = 0 then None else run_items ops k (work_items gw gh) m)"
| "exec ops (CopyBuffer src dst n) m =
     (if n \<le> length (m src) \<and> n \<le> length (m dst)
      then Some (m(dst := take n (m src) @ drop n (m dst))) else None)"

fun finish :: "'f float_ops \<Rightarrow> 'f command list \<Rightarrow> 'f memory \<Rightarrow> 'f memory option" where
  "finish ops [] m = Some m"
| "finish ops (c # cs) m =
     (case exec ops c m of None \<Rightarrow> None | Some m' \<Rightarrow> finish ops cs m')"

text \<open>The commands that launch the kernel.\<close>

fun is_dispatch :: "'f command \<Rightarrow> bool" where
  "is_dispatch (NDRangeKernel k gw gh) = True"
| "is_dispatch (CopyBuffer src dst n) = False"

section \<open>The host program\<close>

definition grid_size :: "int \<Rightarrow> int \<Rightarrow> nat" where
  "grid_size WIDTH HEIGHT = size_t (int32 (WIDTH * HEIGHT))"

text \<open>
  Buffer creation: three buffers copy a host vector, \<open>bufferNext\<close> is created without
  host data, so it holds whatever the device memory held (\<open>junk\<close>); the host vector
  \<open>next\<close> is never uploaded. Creating an empty buffer, or copying from a host vector
  of another size, aborts the run.
\<close>

definition device_memory :: "'f list \<Rightarrow> 'f list \<Rightarrow> 'f list \<Rightarrow> 'f list \<Rightarrow> 'f memory" where
  "device_memory current previous nxt elevation =
     (\<lambda>b. case b of
        bufferCurrent \<Rightarrow> current
      | bufferPrevious \<Rightarrow> previous
      | bufferNext \<Rightarrow> nxt
      | bufferElevation \<Rightarrow> elevation)"

definition create_buffers :: "nat \<Rightarrow> 'f list \<Rightarrow> 'f list \<Rightarrow> 'f list \<Rightarrow> (nat \<Rightarrow> 'f) \<Rightarrow> 'f memory option" where
  "create_buffers n current previous elevation junk =
     (if n = 0 \<or> length current \<noteq> n \<or> length previous \<noteq> n \<or> length elevation \<noteq> n then None
      else Some (device_memory current previous (map junk [0..<n]) elevation))"

definition set_args :: "int \<Rightarrow> int \<Rightarrow> 'f \<Rightarrow> 'f kernel" where
  "set_args WIDTH HEIGHT dt_dx2 =
     \<lparr>k_current = bufferCurrent, k_previous = bufferPrevious, k_next = bufferNext,
      k_elevation = bufferElevation, k_WIDTH = WIDTH, k_HEIGHT = HEIGHT, k_dt_dx2 = dt_dx2\<rparr>"

text \<open>The three commands that one iteration of the time-stepping loop enqueues.\<close>

definition timestep :: "'f kernel \<Rightarrow> int \<Rightarrow> int \<Rightarrow> 'f command list" where
  "timestep kern WIDTH HEIGHT =
     [NDRangeKernel kern (size_t WIDTH) (size_t HEIGHT),
      CopyBuffer bufferNext bufferPrevious (grid_size WIDTH HEIGHT),
      CopyBuffer bufferCurrent bufferNext (grid_size WIDTH HEIGHT)]"

text \<open>
  \<open>for (int t = 0; t < TIMESTEPS; t++)\<close>. The counter stays below \<open>TIMESTEPS\<close>, itself an
  \<open>int\<close>, so \<open>t + 1\<close> never wraps.
\<close>

function time_loop :: "'f kernel \<Rightarrow> int \<Rightarrow> int \<Rightarrow> int \<Rightarrow> int \<Rightarrow> 'f command list \<Rightarrow> 'f command list" where
  "time_loop kern WIDTH HEIGHT TIMESTEPS t queue =
     (if t < TIMESTEPS
      then time_loop kern WIDTH HEIGHT TIMESTEPS (t + 1) (queue @ timestep kern WIDTH HEIGHT)
      else queue)"
  by pat_completeness auto
termination
  by (relation "measure (\<lambda>(kern, WIDTH, HEIGHT, TIMESTEPS, t, queue). nat (TIMESTEPS - t))") auto

declare time_loop.simps [simp del]

text \<open>
  The run from buffer creation to \<open>queue.finish()\<close>, and the read-back of
  \<open>bufferCurrent\<close> into the host vector.
\<close>

definition simulate :: "'f float_ops \<Rightarrow> int \<Rightarrow> int \<Rightarrow> int \<Rightarrow> 'f \<Rightarrow> 'f list \<Rightarrow> 'f list \<Rightarrow> 'f list \<Rightarrow> (nat \<Rightarrow> 'f) \<Rightarrow> 'f memory option" where
  "simulate ops WIDTH HEIGHT TIMESTEPS dt_dx2 current previous elevation junk =
     do {
       m0 \<leftarrow> create_buffers (grid_size WIDTH HEIGHT) current previous elevation junk;
       finish ops (time_loop (set_args WIDTH HEIGHT dt_dx2) WIDTH HEIGHT TIMESTEPS 0 []) m0
     }"

definition enqueueReadBuffer :: "buffer \<Rightarrow> nat \<Rightarrow> 'f memory \<Rightarrow> 'f list" where
  "enqueueReadBuffer b n m = take n (m b)"

definition run :: "'f float_ops \<Rightarrow> int \<Rightarrow> int \<Rightarrow> int \<Rightarrow> 'f \<Rightarrow> 'f list \<Rightarrow> 'f list \<Rightarrow> 'f list \<Rightarrow> (nat \<Rightarrow> 'f) \<Rightarrow> 'f list option" where
  "run ops WIDTH HEIGHT TIMESTEPS dt_dx2 current previous elevation junk =
     map_option (enqueueReadBuffer bufferCurrent (grid_size WIDTH HEIGHT))
       (simulate ops WIDTH HEIGHT TIMESTEPS dt_dx2 current previous elevation junk)"

subsection \<open>The constants and the initial fields of \<open>main\<close>\<close>

definition WIDTH :: int where "WIDTH = 512"
definition HEIGHT :: int where "HEIGHT = 512"
definition TIMESTEPS :: int where "TIMESTEPS = 2500"

definition WAVE_SPEED :: "'f float_ops \<Rightarrow> 'f" where "WAVE_SPEED ops = lit ops 1"
definition DT :: "'f float_ops \<Rightarrow> 'f" where "DT ops = lit ops (1 / 10)"
definition DX :: "'f float_ops \<Rightarrow> 'f" where "DX ops = lit ops 1"

definition dt_dx2 :: "'f float_ops \<Rightarrow> 'f \<Rightarrow> 'f \<Rightarrow> 'f \<Rightarrow> 'f" where
  "dt_dx2 ops speed dt dx =
     fdiv ops (fmul ops (fmul ops (fmul ops speed speed) dt) dt) (fmul ops dx dx)"

text \<open>
  The initialisation loop visits the cells row by row. With the constants above every
  intermediate integer stays far inside the \<open>int\<close> range, and \<open>HEIGHT / 2\<close> divides
  a positive number.
\<close>

definition init_cell :: "'f float_ops \<Rightarrow> int \<times> int \<Rightarrow> 'f list \<times> 'f list \<times> 'f list \<Rightarrow> 'f list \<times> 'f list \<times> 'f list" where
  "init_cell ops ij s =
     (case s of (current, previous, elevation) \<Rightarrow>
        let i = fst ij; j = snd ij;
            idx = nat (i * WIDTH + j);
            splash = ((i - HEIGHT div 2) * (i - HEIGHT div 2) + (j - WIDTH div 2) * (j - WIDTH div 2) \<le> 4);
            land = ((i - 400) * (i - 400) + (j - 400) * (j - 400) \<le> 50 * 50)
        in (if splash then current[idx := lit ops 10] else current,
            if splash then previous[idx := lit ops 10] else previous,
            if land then elevation[idx := lit ops 100] else elevation))"

definition init_grid :: "'f float_ops \<Rightarrow> 'f list \<times> 'f list \<times> 'f list" where
  "init_grid ops =
     fold (init_cell ops)
       (concat (map (\<lambda>i. map (\<lambda>j. (i, j)) [0..WIDTH - 1]) [0..HEIGHT - 1]))
       (replicate (grid_size WIDTH HEIGHT) (lit ops 0),
        replicate (grid_size WIDTH HEIGHT) (lit ops 0),
        replicate (grid_size WIDTH HEIGHT) (lit ops (- 100)))"

definition main :: "'f float_ops \<Rightarrow> (nat \<Rightarrow> 'f) \<Rightarrow> 'f list option" where
  "main ops junk =
     (case init_grid ops of (current, previous, elevation) \<Rightarrow>
        run ops WIDTH HEIGHT TIMESTEPS (dt_dx2 ops (WAVE_SPEED ops) (DT ops) (DX ops))
          current previous elevation junk)"

section \<open>Grids and the value a work item writes\<close>

text \<open>
  A grid of \<open>W\<close> columns and \<open>H\<close> rows whose cell count is an \<open>int\<close>, as the host's
  \<open>WIDTH * HEIGHT\<close> and the kernel's \<open>int idx\<close> require, with four buffers of that many
  floats.
\<close>

definition wf_grid :: "int \<Rightarrow> int \<Rightarrow> 'f memory \<Rightarrow> bool" where
  "wf_grid W H m \<longleftrightarrow>
     1 \<le> W \<and> 1 \<le> H \<and> W * H < 2 ^ 31 \<and>
     length (m bufferCurrent) = nat (W * H) \<and> length (m bufferPrevious) = nat (W * H) \<and>
     length (m bufferNext) = nat (W * H) \<and> length (m bufferElevation) = nat (W * H)"

text \<open>A work item \<open>g = (column, row)\<close> lies inside the grid; its linear index.\<close>

definition inside :: "int \<Rightarrow> int \<Rightarrow> int \<times> int \<Rightarrow> bool" where
  "inside W H g \<longleftrightarrow> 0 \<le> snd g \<and> snd g < H \<and> 0 \<le> fst g \<and> fst g < W"

definition cell :: "int \<Rightarrow> int \<times> int \<Rightarrow> nat" where
  "cell W g = nat (snd g * W + fst g)"

text \<open>
  The three rules of the kernel as a function of the linear index. It is not part of the
  program: \<open>wave_update_inside\<close> below proves that the kernel writes this value, and
  the theorems on the claims are stated on the kernel and the queue themselves.
\<close>

definition stencil :: "'f float_ops \<Rightarrow> int \<Rightarrow> int \<Rightarrow> 'f \<Rightarrow> 'f memory \<Rightarrow> nat \<Rightarrow> 'f" where
  "stencil ops W H c m idx =
     (let i = int idx div W; j = int idx mod W; cur = m bufferCurrent in
      if fgt ops (m bufferElevation ! idx) (lit ops 0) then cur ! idx
      else if i = 0 \<or> i = H - 1 \<or> j = 0 \<or> j = W - 1 then lit ops 0
      else fadd ops (fsub ops (fmul ops (lit ops 2) (cur ! idx)) (m bufferPrevious ! idx))
             (fmul ops c
                (fsub ops (fadd ops (fadd ops (fadd ops (cur ! (idx - nat W)) (cur ! (idx + nat W)))
                                       (cur ! (idx - 1))) (cur ! (idx + 1)))
                   (fmul ops (lit ops 4) (cur ! idx)))))"

section \<open>One work item and one dispatch\<close>

lemma int32_id: "- (2 ^ 31) \<le> x \<Longrightarrow> x < 2 ^ 31 \<Longrightarrow> int32 x = x"
  by (simp add: int32_def)

lemma size_t_id: "0 \<le> x \<Longrightarrow> x < 2 ^ 31 \<Longrightarrow> size_t x = nat x"
  by (simp add: size_t_def)

lemma cell_bounds:
  assumes "0 \<le> i" "i < H" "0 \<le> j" "j < (W::int)"
  shows "0 \<le> i * W + j" "i * W + j < W * H" "0 \<le> i * W" "i * W < W * H"
proof -
  have W: "0 < W" using assms by simp
  show "0 \<le> i * W" using assms W by simp
  then show "0 \<le> i * W + j" using assms by simp
  have "i + 1 \<le> H" using assms by simp
  then have "(i + 1) * W \<le> H * W" using W by (intro mult_right_mono) simp_all
  then have *: "i * W + W \<le> W * H" by (simp add: algebra_simps)
  then show "i * W + j < W * H" using assms by simp
  from * show "i * W < W * H" using W by linarith
qed

lemma dims_le:
  assumes "1 \<le> W" "1 \<le> (H::int)"
  shows "W \<le> W * H" "H \<le> W * H"
proof -
  have "W * 1 \<le> W * H" using assms by (intro mult_left_mono) simp_all
  then show "W \<le> W * H" by simp
  have "1 * H \<le> W * H" using assms by (intro mult_right_mono) simp_all
  then show "H \<le> W * H" by simp
qed

lemma cell_div_mod:
  assumes "0 \<le> i" "0 \<le> j" "j < (W::int)"
  shows "(i * W + j) div W = i" "(i * W + j) mod W = j"
  using assms by (simp_all add: div_pos_pos_trivial)

lemma wave_update_outside:
  "i < 0 \<or> k_HEIGHT k \<le> i \<or> j < 0 \<or> k_WIDTH k \<le> j \<Longrightarrow> wave_update ops k (j, i) m = Some m"
  by (simp add: wave_update_def Let_def)

lemma wave_update_inside:
  assumes wf: "wf_grid W H m" and i: "0 \<le> i" "i < H" and j: "0 \<le> j" "j < W"
  shows "wave_update ops (set_args W H c) (j, i) m =
           Some (m(bufferNext := (m bufferNext)[nat (i * W + j) := stencil ops W H c m (nat (i * W + j))]))"
proof -
  let ?idx = "i * W + j"
  note cb = cell_bounds [OF i j]
  have lim: "W * H < 2 ^ 31" and W: "1 \<le> W" and H: "1 \<le> H" using wf by (simp_all add: wf_grid_def)
  have iW: "int32 (i * W) = i * W" using cb lim by (intro int32_id) simp_all
  have idx: "int32 (int32 (i * W) + j) = ?idx" using cb lim iW by (simp add: int32_id)
  have len: "\<And>b. length (m b) = nat (W * H)"
    subgoal for b using wf by (cases b) (simp_all add: wf_grid_def) done
  have Wlt: "W < 2 ^ 31" and Hlt: "H < 2 ^ 31" using dims_le [OF W H] lim by simp_all
  have H1: "int32 (H - 1) = H - 1" using H Hlt by (intro int32_id) simp_all
  have W1: "int32 (W - 1) = W - 1" using W Wlt by (intro int32_id) simp_all
  have rd_idx: "\<And>b. rd m b ?idx = Some (m b ! nat ?idx)"
    using cb len by (simp add: rd_def)
  have wr_idx: "\<And>v. wr m bufferNext ?idx v = Some (m(bufferNext := (m bufferNext)[nat ?idx := v]))"
    using cb len by (simp add: wr_def)
  have dm: "int (nat ?idx) div W = i" "int (nat ?idx) mod W = j"
    using cb cell_div_mod [OF i(1) j] by simp_all
  show ?thesis
  proof (cases "fgt ops (m bufferElevation ! nat ?idx) (lit ops 0)")
    case True
    then show ?thesis using i j
      by (simp add: wave_update_def Let_def set_args_def idx rd_idx wr_idx stencil_def)
  next
    case land: False
    show ?thesis
    proof (cases "i = 0 \<or> i = H - 1 \<or> j = 0 \<or> j = W - 1")
      case True
      then show ?thesis using land i j 
        by (simp add: wave_update_def Let_def set_args_def idx rd_idx wr_idx stencil_def H1 W1 dm)
    next
      case False
      then have ii: "0 \<le> i - 1" "i + 1 < H" and jj: "0 \<le> j - 1" "j + 1 < W" using i j by simp_all
      have up: "0 \<le> ?idx - W" "?idx - W < W * H"
        using cell_bounds [OF ii(1) _ j, of H] i by (simp_all add: algebra_simps)
      have down: "0 \<le> ?idx + W" "?idx + W < W * H"
        using cell_bounds [OF _ ii(2) j] i by (simp_all add: algebra_simps)
      have left: "0 \<le> ?idx - 1" "?idx - 1 < W * H"
        using cell_bounds [OF i jj(1), of W] j by (simp_all add: algebra_simps)
      have right: "0 \<le> ?idx + 1" "?idx + 1 < W * H"
        using cell_bounds [OF i _ jj(2)] j by (simp_all add: algebra_simps)
      have w32: "int32 (?idx - W) = ?idx - W" "int32 (?idx + W) = ?idx + W"
                "int32 (?idx - 1) = ?idx - 1" "int32 (?idx + 1) = ?idx + 1"
        using up down left right lim by (simp_all add: int32_id)
      have rds: "rd m bufferCurrent (?idx - W) = Some (m bufferCurrent ! (nat ?idx - nat W))"
                "rd m bufferCurrent (?idx + W) = Some (m bufferCurrent ! (nat ?idx + nat W))"
                "rd m bufferCurrent (?idx - 1) = Some (m bufferCurrent ! (nat ?idx - 1))"
                "rd m bufferCurrent (?idx + 1) = Some (m bufferCurrent ! (nat ?idx + 1))"
        using up down left right len W cb by (simp_all add: rd_def nat_diff_distrib nat_add_distrib)
      show ?thesis using land False i j
        by (simp add: wave_update_def Let_def set_args_def idx rd_idx wr_idx stencil_def H1 W1 dm w32 rds)
    qed
  qed
qed


lemma stencil_cong:
  "m' bufferCurrent = m bufferCurrent \<Longrightarrow> m' bufferPrevious = m bufferPrevious \<Longrightarrow>
   m' bufferElevation = m bufferElevation \<Longrightarrow> stencil ops W H c m' = stencil ops W H c m"
  by (rule ext) (simp add: stencil_def Let_def)

lemma run_items_inside:
  assumes "wf_grid W H m" "\<forall>g\<in>set gs. inside W H g"
  shows "run_items ops (set_args W H c) gs m =
           Some (m(bufferNext := fold (\<lambda>g xs. xs[cell W g := stencil ops W H c m (cell W g)]) gs (m bufferNext)))"
  using assms
proof (induction gs arbitrary: m)
  case Nil
  then show ?case by simp
next
  case (Cons g gs)
  obtain j i where g: "g = (j, i)" by (cases g)
  let ?m' = "m(bufferNext := (m bufferNext)[cell W g := stencil ops W H c m (cell W g)])"
  have ins: "0 \<le> i" "i < H" "0 \<le> j" "j < W" using Cons.prems(2) g by (simp_all add: inside_def)
  have step: "wave_update ops (set_args W H c) g m = Some ?m'"
    using wave_update_inside [OF Cons.prems(1) ins] by (simp add: g cell_def)
  have wf': "wf_grid W H ?m'" using Cons.prems(1) by (simp add: wf_grid_def)
  have st: "stencil ops W H c ?m' = stencil ops W H c m" by (rule stencil_cong) simp_all
  have "run_items ops (set_args W H c) gs ?m' =
          Some (?m'(bufferNext := fold (\<lambda>g xs. xs[cell W g := stencil ops W H c ?m' (cell W g)]) gs (?m' bufferNext)))"
    using Cons.prems(2) by (intro Cons.IH [OF wf']) simp
  then have "run_items ops (set_args W H c) gs ?m' =
          Some (m(bufferNext := fold (\<lambda>g xs. xs[cell W g := stencil ops W H c m (cell W g)]) (g # gs) (m bufferNext)))"
    by (simp add: st)
  then show ?case by (simp only: run_items.simps step option.case)
qed

lemma length_fold_upd: "length (fold (\<lambda>g xs. xs[ix g := f (ix g)]) gs xs) = length xs"
  by (induction gs arbitrary: xs) simp_all

lemma nth_fold_upd:
  "n < length xs \<Longrightarrow>
   fold (\<lambda>g xs. xs[ix g := f (ix g)]) gs xs ! n = (if n \<in> ix ` set gs then f n else xs ! n)"
proof (induction gs arbitrary: xs)
  case Nil
  then show ?case by simp
next
  case (Cons g gs)
  then show ?case by (auto simp: nth_list_update)
qed

lemma fold_upd_cover:
  assumes "ix ` set gs = {..<length xs}"
  shows "fold (\<lambda>g xs. xs[ix g := f (ix g)]) gs xs = map f [0..<length xs]"
  by (rule nth_equalityI) (simp_all add: length_fold_upd nth_fold_upd assms)

lemma set_work_items:
  assumes "1 \<le> W" "1 \<le> H" "W * H < 2 ^ 31"
  shows "set (work_items (nat W) (nat H)) = {g. inside W H g}"
proof -
  have lt: "W < 2 ^ 31" "H < 2 ^ 31" using dims_le [OF assms(1,2)] assms(3) by simp_all
  have a: "int32 (int n) = int n" if "n < nat W" for n using that lt by (intro int32_id) simp_all
  have b: "int32 (int n) = int n" if "n < nat H" for n using that lt by (intro int32_id) simp_all
  have "set (work_items (nat W) (nat H)) = (\<lambda>(g0, g1). (int g0, int g1)) ` ({..<nat W} \<times> {..<nat H})"
    by (auto simp: work_items_def a b image_iff)
  also have "\<dots> = {g. inside W H g}"
  proof (intro set_eqI iffI)
    fix g assume "g \<in> (\<lambda>(g0, g1). (int g0, int g1)) ` ({..<nat W} \<times> {..<nat H})"
    then show "g \<in> {g. inside W H g}" by (auto simp: inside_def)
  next
    fix g assume "g \<in> {g. inside W H g}"
    then have "g = (\<lambda>(g0, g1). (int g0, int g1)) (nat (fst g), nat (snd g))"
      and "(nat (fst g), nat (snd g)) \<in> {..<nat W} \<times> {..<nat H}"
      by (simp_all add: inside_def)
    then show "g \<in> (\<lambda>(g0, g1). (int g0, int g1)) ` ({..<nat W} \<times> {..<nat H})" by (rule image_eqI)
  qed
  finally show ?thesis .
qed

lemma cell_cover:
  assumes "1 \<le> W" "1 \<le> H"
  shows "cell W ` {g. inside W H g} = {..<nat (W * H)}"
proof (intro set_eqI iffI)
  fix n assume "n \<in> cell W ` {g. inside W H g}"
  then obtain g where g: "inside W H g" "n = cell W g" by auto
  then show "n \<in> {..<nat (W * H)}"
    using cell_bounds(1,2) [of "snd g" H "fst g" W] by (simp add: inside_def cell_def)
next
  fix n assume "n \<in> {..<nat (W * H)}"
  then have n: "int n < W * H" by simp
  have W: "0 < W" using assms by simp
  let ?g = "(int n mod W, int n div W)"
  have "int n div W < H"
  proof (rule ccontr)
    assume "\<not> int n div W < H"
    then have "H * W \<le> (int n div W) * W" using W by (intro mult_right_mono) simp_all
    moreover have "(int n div W) * W + int n mod W = int n" by simp
    moreover have "0 \<le> int n mod W" using W by simp
    moreover have "int n < H * W" using n by (simp add: mult.commute)
    ultimately show False by linarith
  qed
  moreover have "0 \<le> int n div W" using W by (simp add: pos_imp_zdiv_nonneg_iff)
  ultimately have "inside W H ?g" using W by (simp add: inside_def)
  moreover have "n = cell W ?g" by (simp add: cell_def)
  ultimately show "n \<in> cell W ` {g. inside W H g}" by blast
qed

lemma dispatch:
  assumes wf: "wf_grid W H m"
  shows "exec ops (NDRangeKernel (set_args W H c) (size_t W) (size_t H)) m =
           Some (m(bufferNext := map (stencil ops W H c m) [0..<nat (W * H)]))"
proof -
  have W: "1 \<le> W" and H: "1 \<le> H" and lim: "W * H < 2 ^ 31" and len: "length (m bufferNext) = nat (W * H)"
    using wf by (simp_all add: wf_grid_def)
  have lt: "W < 2 ^ 31" "H < 2 ^ 31" using dims_le [OF W H] lim by simp_all
  have sz: "size_t W = nat W" "size_t H = nat H" using W H lt by (simp_all add: size_t_id)
  have ins: "\<forall>g\<in>set (work_items (nat W) (nat H)). inside W H g"
    by (simp add: set_work_items [OF W H lim])
  have cov: "cell W ` set (work_items (nat W) (nat H)) = {..<length (m bufferNext)}"
    by (simp add: set_work_items [OF W H lim] cell_cover [OF W H] len)
  show ?thesis using W H
    by (simp add: sz run_items_inside [OF wf ins] fold_upd_cover [OF cov] len)
qed

section \<open>The queue and the time-stepping loop\<close>

lemma grid_size_wf:
  assumes "1 \<le> W" "1 \<le> H" "W * H < 2 ^ 31"
  shows "grid_size W H = nat (W * H)"
proof -
  have "0 \<le> W * H" using assms by simp
  then show ?thesis using assms(3) by (simp add: grid_size_def int32_id size_t_id)
qed

lemma wf_grid_size: "wf_grid W H m \<Longrightarrow> grid_size W H = nat (W * H)"
  by (simp add: wf_grid_def grid_size_wf)

lemma wf_grid_length: "wf_grid W H m \<Longrightarrow> length (m b) = nat (W * H)"
  by (cases b) (simp_all add: wf_grid_def)

lemma wf_grid_upd: "wf_grid W H m \<Longrightarrow> length xs = nat (W * H) \<Longrightarrow> wf_grid W H (m(b := xs))"
  by (cases b) (simp_all add: wf_grid_def)

lemma copy_buffer:
  assumes "wf_grid W H m"
  shows "exec ops (CopyBuffer src dst (grid_size W H)) m = Some (m(dst := m src))"
  using assms by (simp add: wf_grid_size wf_grid_length)

lemma finish_append:
  "finish ops (xs @ ys) m = (case finish ops xs m of None \<Rightarrow> None | Some m' \<Rightarrow> finish ops ys m')"
  by (induction xs arbitrary: m) (simp_all split: option.splits)

lemma timestep_effect:
  assumes wf: "wf_grid W H m"
  shows "finish ops (timestep (set_args W H c) W H) m =
           Some (device_memory (m bufferCurrent) (map (stencil ops W H c m) [0..<nat (W * H)])
                   (m bufferCurrent) (m bufferElevation))"
proof -
  let ?out = "map (stencil ops W H c m) [0..<nat (W * H)]"
  let ?m1 = "m(bufferNext := ?out)"
  let ?m2 = "?m1(bufferPrevious := ?m1 bufferNext)"
  let ?m3 = "?m2(bufferNext := ?m2 bufferCurrent)"
  have wf1: "wf_grid W H ?m1" by (rule wf_grid_upd [OF wf]) simp
  have wf2: "wf_grid W H ?m2" by (rule wf_grid_upd [OF wf1]) simp
  have "finish ops (timestep (set_args W H c) W H) m = Some ?m3"
    unfolding timestep_def finish.simps dispatch [OF wf] option.case
      copy_buffer [OF wf1] copy_buffer [OF wf2] ..
  moreover have "?m3 = device_memory (m bufferCurrent) ?out (m bufferCurrent) (m bufferElevation)"
  proof (rule ext)
    fix b show "?m3 b = device_memory (m bufferCurrent) ?out (m bufferCurrent) (m bufferElevation) b"
      by (cases b) (simp_all add: device_memory_def)
  qed
  ultimately show ?thesis by simp
qed

lemma time_loop_eq:
  "time_loop kern W H T t q = q @ concat (replicate (nat (T - t)) (timestep kern W H))"
proof (induction kern W H T t q rule: time_loop.induct)
  case (1 kern W H T t q)
  show ?case
  proof (cases "t < T")
    case True
    then have "nat (T - t) = Suc (nat (T - (t + 1)))" by simp
    then show ?thesis using 1 [OF True] True by (subst time_loop.simps) simp
  next
    case False
    then show ?thesis by (subst time_loop.simps) simp
  qed
qed

lemma exec_keeps_current:
  assumes wf: "wf_grid W H m" and c: "cmd \<in> set (timestep (set_args W H c) W H)"
  shows "\<exists>m'. exec ops cmd m = Some m' \<and> wf_grid W H m' \<and>
               m' bufferCurrent = m bufferCurrent \<and> m' bufferElevation = m bufferElevation"
proof -
  consider "cmd = NDRangeKernel (set_args W H c) (size_t W) (size_t H)"
    | "cmd = CopyBuffer bufferNext bufferPrevious (grid_size W H)"
    | "cmd = CopyBuffer bufferCurrent bufferNext (grid_size W H)"
    using c by (auto simp: timestep_def)
  then show ?thesis
  proof cases
    case 1
    show ?thesis unfolding 1 dispatch [OF wf] using wf by (simp add: wf_grid_def)
  next
    case 2
    show ?thesis unfolding 2 copy_buffer [OF wf] using wf by (simp add: wf_grid_def)
  next
    case 3
    show ?thesis unfolding 3 copy_buffer [OF wf] using wf by (simp add: wf_grid_def)
  qed
qed

lemma finish_keeps_current:
  assumes "wf_grid W H m" "set cs \<subseteq> set (timestep (set_args W H c) W H)"
  shows "\<exists>m'. finish ops cs m = Some m' \<and> wf_grid W H m' \<and>
               m' bufferCurrent = m bufferCurrent \<and> m' bufferElevation = m bufferElevation"
  using assms
proof (induction cs arbitrary: m)
  case Nil
  then show ?case by simp
next
  case (Cons cmd cs)
  then obtain m1 where m1: "exec ops cmd m = Some m1" "wf_grid W H m1"
      "m1 bufferCurrent = m bufferCurrent" "m1 bufferElevation = m bufferElevation"
    using exec_keeps_current [of W H m cmd c ops] by auto
  from Cons.IH [OF m1(2)] Cons.prems(2) obtain m' where
    "finish ops cs m1 = Some m'" "wf_grid W H m'"
    "m' bufferCurrent = m1 bufferCurrent" "m' bufferElevation = m1 bufferElevation" by auto
  then show ?case using m1 by simp
qed

lemma set_time_loop:
  "set (time_loop kern W H T 0 []) \<subseteq> set (timestep kern W H)"
  by (auto simp: time_loop_eq)

lemma create_buffers_wf:
  assumes "1 \<le> W" "1 \<le> H" "W * H < 2 ^ 31"
    "length cur = nat (W * H)" "length prev = nat (W * H)" "length elev = nat (W * H)"
  shows "create_buffers (grid_size W H) cur prev elev junk =
           Some (device_memory cur prev (map junk [0..<nat (W * H)]) elev)"
    and "wf_grid W H (device_memory cur prev (map junk [0..<nat (W * H)]) elev)"
proof -
  have "0 < W * H" using dims_le [OF assms(1,2)] assms(1) by linarith
  then have "nat (W * H) \<noteq> 0" by linarith
  then show "create_buffers (grid_size W H) cur prev elev junk =
           Some (device_memory cur prev (map junk [0..<nat (W * H)]) elev)"
    by (simp only: create_buffers_def grid_size_wf [OF assms(1-3)] assms(4-6)) simp
  show "wf_grid W H (device_memory cur prev (map junk [0..<nat (W * H)]) elev)"
    using assms by (simp add: wf_grid_def device_memory_def)
qed

section \<open>The stencil rules\<close>

lemma dispatch_nth:
  assumes wf: "wf_grid W H m" and idx: "idx < nat (W * H)"
  shows "\<exists>m1. exec ops (NDRangeKernel (set_args W H c) (size_t W) (size_t H)) m = Some m1 \<and>
               m1 bufferNext ! idx = stencil ops W H c m idx"
  using idx unfolding dispatch [OF wf] by simp

lemma cell_index:
  assumes "wf_grid W H m" "0 \<le> i" "i < H" "0 \<le> j" "j < W"
  shows "nat (i * W + j) < nat (W * H)" "int (nat (i * W + j)) div W = i" "int (nat (i * W + j)) mod W = j"
  using cell_bounds [OF assms(2-5)] cell_div_mod [OF assms(2,4,5)] by simp_all

text \<open>
  C4. For every cell index \<open>idx\<close> whose elevation is positive (land), on the boundary or
  not, one stencil evaluation stores \<open>current[idx]\<close> in \<open>next[idx]\<close>; and after the whole
  timestep (dispatch and the two copies) the value at \<open>idx\<close> in each of the three wave
  buffers is the value the current field had at \<open>idx\<close> before the timestep.
\<close>

theorem C4_land_keeps_current:
  assumes "wf_grid W H m" and "idx < nat (W * H)"
    and "fgt ops (m bufferElevation ! idx) (lit ops 0)"
  shows "\<exists>m1 m2.
           exec ops (NDRangeKernel (set_args W H c) (size_t W) (size_t H)) m = Some m1 \<and>
           m1 bufferNext ! idx = m bufferCurrent ! idx \<and>
           finish ops (timestep (set_args W H c) W H) m = Some m2 \<and>
           m2 bufferCurrent ! idx = m bufferCurrent ! idx \<and>
           m2 bufferPrevious ! idx = m bufferCurrent ! idx \<and>
           m2 bufferNext ! idx = m bufferCurrent ! idx"
proof -
  have land: "stencil ops W H c m idx = m bufferCurrent ! idx"
    using assms(3) by (simp add: stencil_def)
  obtain m1 where m1: "exec ops (NDRangeKernel (set_args W H c) (size_t W) (size_t H)) m = Some m1"
    "m1 bufferNext ! idx = stencil ops W H c m idx"
    using dispatch_nth [OF assms(1,2)] by blast
  let ?m2 = "device_memory (m bufferCurrent) (map (stencil ops W H c m) [0..<nat (W * H)])
               (m bufferCurrent) (m bufferElevation)"
  have "finish ops (timestep (set_args W H c) W H) m = Some ?m2"
    by (rule timestep_effect [OF assms(1)])
  moreover have "?m2 bufferCurrent ! idx = m bufferCurrent ! idx"
    "?m2 bufferNext ! idx = m bufferCurrent ! idx"
    by (simp_all add: device_memory_def)
  moreover have "?m2 bufferPrevious ! idx = m bufferCurrent ! idx"
    using assms(2) land by (simp add: device_memory_def)
  ultimately show ?thesis using m1 land by auto
qed

theorem C4_land_keeps_current_witness:
  "wf_grid 3 3 (device_memory [5, 0, 0, 0, 1, 0, 0, 0, 0] [5, 0, 0, 0, 1, 0, 0, 0, 0]
                  [7, 7, 7, 7, 7, 7, 7, 7, 7] [1, - 1, - 1, - 1, 1, - 1, - 1, - 1, - 1 :: rat]) \<and>
   (\<exists>m1 m2.
      exec exact_ops (NDRangeKernel (set_args 3 3 (1 / 4)) (size_t 3) (size_t 3))
        (device_memory [5, 0, 0, 0, 1, 0, 0, 0, 0] [5, 0, 0, 0, 1, 0, 0, 0, 0]
           [7, 7, 7, 7, 7, 7, 7, 7, 7] [1, - 1, - 1, - 1, 1, - 1, - 1, - 1, - 1]) = Some m1 \<and>
      m1 bufferNext ! 0 = 5 \<and>
      finish exact_ops (timestep (set_args 3 3 (1 / 4)) 3 3)
        (device_memory [5, 0, 0, 0, 1, 0, 0, 0, 0] [5, 0, 0, 0, 1, 0, 0, 0, 0]
           [7, 7, 7, 7, 7, 7, 7, 7, 7] [1, - 1, - 1, - 1, 1, - 1, - 1, - 1, - 1]) = Some m2 \<and>
      m2 bufferCurrent ! 0 = 5 \<and> m2 bufferPrevious ! 0 = 5 \<and> m2 bufferNext ! 0 = 5)"
proof -
  let ?m = "device_memory [5, 0, 0, 0, 1, 0, 0, 0, 0] [5, 0, 0, 0, 1, 0, 0, 0, 0]
              [7, 7, 7, 7, 7, 7, 7, 7, 7] [1, - 1, - 1, - 1, 1, - 1, - 1, - 1, - 1 :: rat]"
  have wf: "wf_grid 3 3 ?m" by (simp add: wf_grid_def device_memory_def)
  have idx: "(0::nat) < nat (3 * 3)" by simp
  have land: "fgt exact_ops (?m bufferElevation ! 0) (lit exact_ops 0)"
    by (simp add: exact_ops_def device_memory_def)
  have cur: "?m bufferCurrent ! 0 = 5" by (simp add: device_memory_def)
  show ?thesis
    using C4_land_keeps_current [OF wf idx land, of "1 / 4"] wf unfolding cur by blast
qed

text \<open>
  C5 (amended). For every boundary cell that is not land, one stencil evaluation stores
  exactly \<open>0.0f\<close> in \<open>next\<close> at that cell. The land rule is tested first, so a boundary
  cell with positive elevation keeps its current value instead.
\<close>

theorem C5_water_boundary_zero:
  assumes "wf_grid W H m" and "0 \<le> i" "i < H" "0 \<le> j" "j < W"
    and "i = 0 \<or> i = H - 1 \<or> j = 0 \<or> j = W - 1"
    and "\<not> fgt ops (m bufferElevation ! nat (i * W + j)) (lit ops 0)"
  shows "\<exists>m1. exec ops (NDRangeKernel (set_args W H c) (size_t W) (size_t H)) m = Some m1 \<and>
               m1 bufferNext ! nat (i * W + j) = lit ops 0"
proof -
  note ci = cell_index [OF assms(1-5)]
  have "stencil ops W H c m (nat (i * W + j)) = lit ops 0"
    using assms(6,7) by (simp only: stencil_def ci Let_def) simp
  then show ?thesis using dispatch_nth [OF assms(1) ci(1), of ops c] by (simp del: exec.simps)
qed

theorem C5_water_boundary_zero_witness:
  "wf_grid 3 3 (device_memory [5, 0, 0, 0, 1, 0, 0, 0, 0] [5, 0, 0, 0, 1, 0, 0, 0, 0]
                  [7, 7, 7, 7, 7, 7, 7, 7, 7] [- 1, - 1, - 1, - 1, - 1, - 1, - 1, - 1, - 1 :: rat]) \<and>
   (\<exists>m1. exec exact_ops (NDRangeKernel (set_args 3 3 (1 / 4)) (size_t 3) (size_t 3))
            (device_memory [5, 0, 0, 0, 1, 0, 0, 0, 0] [5, 0, 0, 0, 1, 0, 0, 0, 0]
               [7, 7, 7, 7, 7, 7, 7, 7, 7] [- 1, - 1, - 1, - 1, - 1, - 1, - 1, - 1, - 1]) = Some m1 \<and>
          m1 bufferNext ! 0 = 0)"
proof -
  let ?m = "device_memory [5, 0, 0, 0, 1, 0, 0, 0, 0] [5, 0, 0, 0, 1, 0, 0, 0, 0]
              [7, 7, 7, 7, 7, 7, 7, 7, 7] [- 1, - 1, - 1, - 1, - 1, - 1, - 1, - 1, - 1 :: rat]"
  have wf: "wf_grid 3 3 ?m" by (simp add: wf_grid_def device_memory_def)
  have water: "\<not> fgt exact_ops (?m bufferElevation ! nat (0 * 3 + 0)) (lit exact_ops 0)"
    by (simp add: exact_ops_def device_memory_def)
  have "\<exists>m1. exec exact_ops (NDRangeKernel (set_args 3 3 (1 / 4)) (size_t 3) (size_t 3)) ?m = Some m1 \<and>
          m1 bufferNext ! nat (0 * 3 + 0) = lit exact_ops 0"
    by (rule C5_water_boundary_zero [OF wf _ _ _ _ _ water]) simp_all
  then show ?thesis using wf by (simp add: exact_ops_def)
qed

text \<open>
  The claim as first stated fails on a boundary cell that is land: cell 0 of a 3 by 3
  grid, with elevation 1 and current value 5. After the dispatch \<open>next\<close> holds 5 there,
  and after the whole timestep so do all three wave buffers.
\<close>

theorem C5_boundary_land_counterexample:
  "wf_grid 3 3 (device_memory [5, 0, 0, 0, 1, 0, 0, 0, 0] [5, 0, 0, 0, 1, 0, 0, 0, 0]
                  [7, 7, 7, 7, 7, 7, 7, 7, 7] [1, - 1, - 1, - 1, - 1, - 1, - 1, - 1, - 1 :: rat]) \<and>
   map_option (enqueueReadBuffer bufferNext 9)
     (exec exact_ops (NDRangeKernel (set_args 3 3 (1 / 4)) (size_t 3) (size_t 3))
        (device_memory [5, 0, 0, 0, 1, 0, 0, 0, 0] [5, 0, 0, 0, 1, 0, 0, 0, 0]
           [7, 7, 7, 7, 7, 7, 7, 7, 7] [1, - 1, - 1, - 1, - 1, - 1, - 1, - 1, - 1]))
     = Some [5, 0, 0, 0, 0, 0, 0, 0, 0] \<and>
   map_option (enqueueReadBuffer bufferCurrent 1)
     (finish exact_ops (timestep (set_args 3 3 (1 / 4)) 3 3)
        (device_memory [5, 0, 0, 0, 1, 0, 0, 0, 0] [5, 0, 0, 0, 1, 0, 0, 0, 0]
           [7, 7, 7, 7, 7, 7, 7, 7, 7] [1, - 1, - 1, - 1, - 1, - 1, - 1, - 1, - 1]))
     = Some [5] \<and>
   map_option (enqueueReadBuffer bufferPrevious 1)
     (finish exact_ops (timestep (set_args 3 3 (1 / 4)) 3 3)
        (device_memory [5, 0, 0, 0, 1, 0, 0, 0, 0] [5, 0, 0, 0, 1, 0, 0, 0, 0]
           [7, 7, 7, 7, 7, 7, 7, 7, 7] [1, - 1, - 1, - 1, - 1, - 1, - 1, - 1, - 1]))
     = Some [5] \<and>
   map_option (enqueueReadBuffer bufferNext 1)
     (finish exact_ops (timestep (set_args 3 3 (1 / 4)) 3 3)
        (device_memory [5, 0, 0, 0, 1, 0, 0, 0, 0] [5, 0, 0, 0, 1, 0, 0, 0, 0]
           [7, 7, 7, 7, 7, 7, 7, 7, 7] [1, - 1, - 1, - 1, - 1, - 1, - 1, - 1, - 1]))
     = Some [5] \<and>
   (5 :: rat) \<noteq> lit exact_ops 0"
  by code_simp

text \<open>
  C6. For every interior cell that is not land, one stencil evaluation stores in
  \<open>next[idx]\<close> the leapfrog value
  \<open>2*current[idx] - previous[idx] + k*(current[idx-W] + current[idx+W] + current[idx-1] +
  current[idx+1] - 4*current[idx])\<close>, computed in single precision in the order the source
  writes it, where \<open>k\<close> is the kernel argument \<open>dt_dx2\<close>. The hypothesis is that the
  test \<open>elevation > 0\<close> fails, which \<open>E[idx] \<le> 0\<close> implies. The value \<open>main\<close> passes for
  \<open>k\<close> is \<open>(speed * dt / dx)\<^sup>2\<close>: as an identity of exact arithmetic for all values, and in
  single precision for the constants of \<open>main\<close> (speed and dx are \<open>1.0f\<close>) whenever
  multiplying and dividing by \<open>1.0f\<close> return the other operand, as IEEE arithmetic does.
\<close>

theorem C6_interior_leapfrog:
  assumes "wf_grid W H m" and "0 < i" "i < H - 1" "0 < j" "j < W - 1"
    and "\<not> fgt ops (m bufferElevation ! nat (i * W + j)) (lit ops 0)"
  shows "(\<exists>m1. exec ops (NDRangeKernel (set_args W H k) (size_t W) (size_t H)) m = Some m1 \<and>
           m1 bufferNext ! nat (i * W + j) =
             fadd ops (fsub ops (fmul ops (lit ops 2) (m bufferCurrent ! nat (i * W + j)))
                         (m bufferPrevious ! nat (i * W + j)))
               (fmul ops k
                  (fsub ops
                     (fadd ops
                        (fadd ops
                           (fadd ops (m bufferCurrent ! nat (i * W + j - W))
                              (m bufferCurrent ! nat (i * W + j + W)))
                           (m bufferCurrent ! nat (i * W + j - 1)))
                        (m bufferCurrent ! nat (i * W + j + 1)))
                     (fmul ops (lit ops 4) (m bufferCurrent ! nat (i * W + j)))))) \<and>
         dt_dx2 exact_ops speed dt dx = (speed * dt / dx) ^ 2 \<and>
         ((\<forall>x. fmul ops (lit ops 1) x = x) \<and> (\<forall>x. fdiv ops x (lit ops 1) = x) \<longrightarrow>
          dt_dx2 ops (WAVE_SPEED ops) (DT ops) (DX ops) =
            fmul ops (fdiv ops (fmul ops (WAVE_SPEED ops) (DT ops)) (DX ops))
              (fdiv ops (fmul ops (WAVE_SPEED ops) (DT ops)) (DX ops)))"
proof -
  have i: "0 \<le> i" "i < H" and j: "0 \<le> j" "j < W" using assms(2-5) by simp_all
  note ci = cell_index [OF assms(1) i j]
  have W: "1 \<le> W" using assms(1) by (simp add: wf_grid_def)
  have nb: "\<not> (i = 0 \<or> i = H - 1 \<or> j = 0 \<or> j = W - 1)" using assms(2-5) by simp
  have ge: "W \<le> i * W + j"
  proof -
    have "1 * W \<le> i * W" using assms(2) W by (intro mult_right_mono) simp_all
    then show ?thesis using j by linarith
  qed
  have nats: "nat (i * W + j) - nat W = nat (i * W + j - W)"
    "nat (i * W + j) + nat W = nat (i * W + j + W)"
    "nat (i * W + j) - 1 = nat (i * W + j - 1)"
    "nat (i * W + j) + 1 = nat (i * W + j + 1)"
    using ge W by (simp_all add: nat_diff_distrib nat_add_distrib)
  have "stencil ops W H k m (nat (i * W + j)) =
             fadd ops (fsub ops (fmul ops (lit ops 2) (m bufferCurrent ! nat (i * W + j)))
                         (m bufferPrevious ! nat (i * W + j)))
               (fmul ops k
                  (fsub ops
                     (fadd ops
                        (fadd ops
                           (fadd ops (m bufferCurrent ! nat (i * W + j - W))
                              (m bufferCurrent ! nat (i * W + j + W)))
                           (m bufferCurrent ! nat (i * W + j - 1)))
                        (m bufferCurrent ! nat (i * W + j + 1)))
                     (fmul ops (lit ops 4) (m bufferCurrent ! nat (i * W + j)))))"
    using assms(6) nb by (simp only: stencil_def ci Let_def nats [symmetric]) simp
  then have A: "\<exists>m1. exec ops (NDRangeKernel (set_args W H k) (size_t W) (size_t H)) m = Some m1 \<and>
           m1 bufferNext ! nat (i * W + j) =
             fadd ops (fsub ops (fmul ops (lit ops 2) (m bufferCurrent ! nat (i * W + j)))
                         (m bufferPrevious ! nat (i * W + j)))
               (fmul ops k
                  (fsub ops
                     (fadd ops
                        (fadd ops
                           (fadd ops (m bufferCurrent ! nat (i * W + j - W))
                              (m bufferCurrent ! nat (i * W + j + W)))
                           (m bufferCurrent ! nat (i * W + j - 1)))
                        (m bufferCurrent ! nat (i * W + j + 1)))
                     (fmul ops (lit ops 4) (m bufferCurrent ! nat (i * W + j)))))"
    using dispatch_nth [OF assms(1) ci(1), of ops k] by (simp del: exec.simps)
  have B: "dt_dx2 exact_ops speed dt dx = (speed * dt / dx) ^ 2"
    by (simp add: dt_dx2_def exact_ops_def power2_eq_square)
  have C: "(\<forall>x. fmul ops (lit ops 1) x = x) \<and> (\<forall>x. fdiv ops x (lit ops 1) = x) \<longrightarrow>
         dt_dx2 ops (WAVE_SPEED ops) (DT ops) (DX ops) =
           fmul ops (fdiv ops (fmul ops (WAVE_SPEED ops) (DT ops)) (DX ops))
             (fdiv ops (fmul ops (WAVE_SPEED ops) (DT ops)) (DX ops))"
    by (simp add: dt_dx2_def WAVE_SPEED_def DX_def)
  from A B C show ?thesis by (intro conjI)
qed

theorem C6_interior_leapfrog_witness:
  "wf_grid 3 3 (device_memory [1, 2, 3, 4, 5, 6, 7, 8, 9] [9, 8, 7, 6, 3, 4, 3, 2, 1]
                  [7, 7, 7, 7, 7, 7, 7, 7, 7] [- 1, - 1, - 1, - 1, - 1, - 1, - 1, - 1, - 1 :: rat]) \<and>
   (\<exists>m1. exec exact_ops (NDRangeKernel (set_args 3 3 (1 / 4)) (size_t 3) (size_t 3))
            (device_memory [1, 2, 3, 4, 5, 6, 7, 8, 9] [9, 8, 7, 6, 3, 4, 3, 2, 1]
               [7, 7, 7, 7, 7, 7, 7, 7, 7] [- 1, - 1, - 1, - 1, - 1, - 1, - 1, - 1, - 1]) = Some m1 \<and>
          m1 bufferNext ! 4 = 2 * 5 - 3 + 1 / 4 * (2 + 8 + 4 + 6 - 4 * 5)) \<and>
   (\<forall>x. fmul exact_ops (lit exact_ops 1) x = x) \<and> (\<forall>x. fdiv exact_ops x (lit exact_ops 1) = x) \<and>
   dt_dx2 exact_ops (WAVE_SPEED exact_ops) (DT exact_ops) (DX exact_ops) = 1 / 100"
proof -
  let ?m = "device_memory [1, 2, 3, 4, 5, 6, 7, 8, 9] [9, 8, 7, 6, 3, 4, 3, 2, 1]
              [7, 7, 7, 7, 7, 7, 7, 7, 7] [- 1, - 1, - 1, - 1, - 1, - 1, - 1, - 1, - 1 :: rat]"
  have wf: "wf_grid 3 3 ?m" by (simp add: wf_grid_def device_memory_def)
  have water: "\<not> fgt exact_ops (?m bufferElevation ! nat (1 * 3 + 1)) (lit exact_ops 0)"
    by (simp add: exact_ops_def device_memory_def)
  have unit: "(\<forall>x. fmul exact_ops (lit exact_ops 1) x = x) \<and> (\<forall>x. fdiv exact_ops x (lit exact_ops 1) = x)"
    by (simp add: exact_ops_def)
  have inst: "(\<exists>m1. exec exact_ops (NDRangeKernel (set_args 3 3 (1 / 4)) (size_t 3) (size_t 3)) ?m = Some m1 \<and>
           m1 bufferNext ! nat (1 * 3 + 1) =
             fadd exact_ops (fsub exact_ops (fmul exact_ops (lit exact_ops 2) (?m bufferCurrent ! nat (1 * 3 + 1)))
                         (?m bufferPrevious ! nat (1 * 3 + 1)))
               (fmul exact_ops (1 / 4)
                  (fsub exact_ops
                     (fadd exact_ops
                        (fadd exact_ops
                           (fadd exact_ops (?m bufferCurrent ! nat (1 * 3 + 1 - 3))
                              (?m bufferCurrent ! nat (1 * 3 + 1 + 3)))
                           (?m bufferCurrent ! nat (1 * 3 + 1 - 1)))
                        (?m bufferCurrent ! nat (1 * 3 + 1 + 1)))
                     (fmul exact_ops (lit exact_ops 4) (?m bufferCurrent ! nat (1 * 3 + 1)))))) \<and>
         dt_dx2 exact_ops 1 1 1 = (1 * 1 / 1) ^ 2 \<and>
         ((\<forall>x. fmul exact_ops (lit exact_ops 1) x = x) \<and> (\<forall>x. fdiv exact_ops x (lit exact_ops 1) = x) \<longrightarrow>
          dt_dx2 exact_ops (WAVE_SPEED exact_ops) (DT exact_ops) (DX exact_ops) =
            fmul exact_ops (fdiv exact_ops (fmul exact_ops (WAVE_SPEED exact_ops) (DT exact_ops)) (DX exact_ops))
              (fdiv exact_ops (fmul exact_ops (WAVE_SPEED exact_ops) (DT exact_ops)) (DX exact_ops)))"
    by (rule C6_interior_leapfrog [OF wf _ _ _ _ water]) simp_all
  have "\<exists>m1. exec exact_ops (NDRangeKernel (set_args 3 3 (1 / 4)) (size_t 3) (size_t 3)) ?m = Some m1 \<and>
          m1 bufferNext ! 4 = 2 * 5 - 3 + 1 / 4 * (2 + 8 + 4 + 6 - 4 * 5)"
    using inst by (simp add: exact_ops_def device_memory_def del: exec.simps)
  moreover have "dt_dx2 exact_ops (WAVE_SPEED exact_ops) (DT exact_ops) (DX exact_ops) = 1 / 100"
    using inst unit by (simp add: WAVE_SPEED_def DT_def DX_def exact_ops_def del: exec.simps)
  ultimately show ?thesis using wf unit by blast
qed

lemma run_items_schedule:
  assumes wf: "wf_grid W H m" and gs: "mset gs = mset (work_items (size_t W) (size_t H))"
  shows "run_items ops (set_args W H c) gs m =
           Some (m(bufferNext := map (stencil ops W H c m) [0..<nat (W * H)]))"
proof -
  have W: "1 \<le> W" and H: "1 \<le> H" and lim: "W * H < 2 ^ 31" and len: "length (m bufferNext) = nat (W * H)"
    using wf by (simp_all add: wf_grid_def)
  have lt: "W < 2 ^ 31" "H < 2 ^ 31" using dims_le [OF W H] lim by simp_all
  have sz: "size_t W = nat W" "size_t H = nat H" using W H lt by (simp_all add: size_t_id)
  have set_gs: "set gs = {g. inside W H g}"
    using mset_eq_setD [OF gs] by (simp add: sz set_work_items [OF W H lim])
  have ins: "\<forall>g\<in>set gs. inside W H g" by (simp add: set_gs)
  have cov: "cell W ` set gs = {..<length (m bufferNext)}"
    by (simp add: set_gs cell_cover [OF W H] len)
  show ?thesis
    by (simp add: run_items_inside [OF wf ins] fold_upd_cover [OF cov] len)
qed

text \<open>
  C7. The value a work item writes depends on the elevation, current and previous fields
  only. Hence on two memories that agree on these three fields, whatever their next
  buffers hold, running the \<open>H \<times> W\<close> work items of a dispatch one after the other in any
  two orders (two permutations of the work items) leaves the same next field, and
  touches no other buffer.
\<close>

theorem C7_order_independent:
  assumes "wf_grid W H m" and "wf_grid W H m'"
    and "m' bufferCurrent = m bufferCurrent" and "m' bufferPrevious = m bufferPrevious"
    and "m' bufferElevation = m bufferElevation"
    and "mset gs = mset (work_items (size_t W) (size_t H))"
    and "mset gs' = mset (work_items (size_t W) (size_t H))"
  shows "\<exists>out. run_items ops (set_args W H c) gs m = Some (m(bufferNext := out)) \<and>
               run_items ops (set_args W H c) gs' m' = Some (m'(bufferNext := out))"
proof -
  have "stencil ops W H c m' = stencil ops W H c m"
    by (rule stencil_cong [OF assms(3-5)])
  then show ?thesis
    using run_items_schedule [OF assms(1,6), of ops c] run_items_schedule [OF assms(2,7), of ops c]
    by (intro exI [of _ "map (stencil ops W H c m) [0..<nat (W * H)]"]) simp
qed

theorem C7_order_independent_witness:
  "wf_grid 3 3 (device_memory [1, 2, 3, 4, 5, 6, 7, 8, 9] [9, 8, 7, 6, 3, 4, 3, 2, 1]
                  [7, 7, 7, 7, 7, 7, 7, 7, 7] [- 1, - 1, - 1, - 1, - 1, - 1, - 1, - 1, 1 :: rat]) \<and>
   wf_grid 3 3 (device_memory [1, 2, 3, 4, 5, 6, 7, 8, 9] [9, 8, 7, 6, 3, 4, 3, 2, 1]
                  [0, 1, 0, 1, 0, 1, 0, 1, 0] [- 1, - 1, - 1, - 1, - 1, - 1, - 1, - 1, 1 :: rat]) \<and>
   mset (rev (work_items (size_t 3) (size_t 3))) = mset (work_items (size_t 3) (size_t 3)) \<and>
   map_option (enqueueReadBuffer bufferNext 9)
     (run_items exact_ops (set_args 3 3 (1 / 4)) (rev (work_items (size_t 3) (size_t 3)))
        (device_memory [1, 2, 3, 4, 5, 6, 7, 8, 9] [9, 8, 7, 6, 3, 4, 3, 2, 1]
           [7, 7, 7, 7, 7, 7, 7, 7, 7] [- 1, - 1, - 1, - 1, - 1, - 1, - 1, - 1, 1])) =
   map_option (enqueueReadBuffer bufferNext 9)
     (run_items exact_ops (set_args 3 3 (1 / 4)) (work_items (size_t 3) (size_t 3))
        (device_memory [1, 2, 3, 4, 5, 6, 7, 8, 9] [9, 8, 7, 6, 3, 4, 3, 2, 1]
           [0, 1, 0, 1, 0, 1, 0, 1, 0] [- 1, - 1, - 1, - 1, - 1, - 1, - 1, - 1, 1]))"
proof -
  let ?m = "device_memory [1, 2, 3, 4, 5, 6, 7, 8, 9] [9, 8, 7, 6, 3, 4, 3, 2, 1]
              [7, 7, 7, 7, 7, 7, 7, 7, 7] [- 1, - 1, - 1, - 1, - 1, - 1, - 1, - 1, 1 :: rat]"
  let ?m' = "device_memory [1, 2, 3, 4, 5, 6, 7, 8, 9] [9, 8, 7, 6, 3, 4, 3, 2, 1]
              [0, 1, 0, 1, 0, 1, 0, 1, 0] [- 1, - 1, - 1, - 1, - 1, - 1, - 1, - 1, 1 :: rat]"
  have wf: "wf_grid 3 3 ?m" "wf_grid 3 3 ?m'" by (simp_all add: wf_grid_def device_memory_def)
  have same: "?m' bufferCurrent = ?m bufferCurrent" "?m' bufferPrevious = ?m bufferPrevious"
    "?m' bufferElevation = ?m bufferElevation" by (simp_all add: device_memory_def)
  have perm: "mset (rev (work_items (size_t 3) (size_t 3))) = mset (work_items (size_t 3) (size_t 3))"
    by simp
  obtain out where
    "run_items exact_ops (set_args 3 3 (1 / 4)) (rev (work_items (size_t 3) (size_t 3))) ?m =
       Some (?m(bufferNext := out))"
    "run_items exact_ops (set_args 3 3 (1 / 4)) (work_items (size_t 3) (size_t 3)) ?m' =
       Some (?m'(bufferNext := out))"
    using C7_order_independent [OF wf same perm refl, of exact_ops "1 / 4"] by blast
  then show ?thesis using wf perm by (simp add: enqueueReadBuffer_def)
qed

text \<open>
  C10 (amended). On a grid with \<open>W \<ge> 1\<close>, \<open>H \<ge> 1\<close> and \<open>W * H \<le> 2\<^sup>3\<^sup>1 - 1\<close> (the cell count
  is an \<open>int\<close>) no work item reads or writes outside a buffer: every work item returns a
  memory; for an interior cell the four neighbour indices lie in \<open>[0, W * H)\<close>; and a
  work item outside \<open>[0, H) \<times> [0, W)\<close> returns the memory it was given, whatever that
  memory is.
\<close>

theorem C10_accesses_in_bounds:
  assumes "wf_grid W H m"
  shows "(\<exists>m1. wave_update ops (set_args W H c) (j, i) m = Some m1) \<and>
         (0 < i \<and> i < H - 1 \<and> 0 < j \<and> j < W - 1 \<longrightarrow>
            0 \<le> i * W + j - W \<and> i * W + j + W < W * H \<and>
            0 \<le> i * W + j - 1 \<and> i * W + j + 1 < W * H) \<and>
         (\<not> inside W H (j, i) \<longrightarrow> wave_update ops (set_args W H c) (j, i) m0 = Some m0)"
proof -
  have A: "\<exists>m1. wave_update ops (set_args W H c) (j, i) m = Some m1"
  proof (cases "inside W H (j, i)")
    case True
    then show ?thesis using wave_update_inside [OF assms, of i j ops c] by (simp add: inside_def)
  next
    case False
    then show ?thesis
      using wave_update_outside [of i "set_args W H c" j ops m] by (auto simp: inside_def set_args_def)
  qed
  have B: "0 \<le> i * W + j - W \<and> i * W + j + W < W * H \<and> 0 \<le> i * W + j - 1 \<and> i * W + j + 1 < W * H"
    if "0 < i \<and> i < H - 1 \<and> 0 < j \<and> j < W - 1"
    using that cell_bounds(1) [of "i - 1" H j W] cell_bounds(2) [of "i + 1" H j W]
      cell_bounds(1) [of i H "j - 1" W] cell_bounds(2) [of i H "j + 1" W]
    by (simp add: algebra_simps)
  have C: "wave_update ops (set_args W H c) (j, i) m0 = Some m0" if "\<not> inside W H (j, i)"
    using that wave_update_outside [of i "set_args W H c" j ops m0] by (auto simp: inside_def set_args_def)
  from A B C show ?thesis by blast
qed

theorem C10_accesses_in_bounds_witness:
  "wf_grid 3 3 (device_memory [1, 2, 3, 4, 5, 6, 7, 8, 9] [9, 8, 7, 6, 3, 4, 3, 2, 1]
                  [7, 7, 7, 7, 7, 7, 7, 7, 7] [- 1, - 1, - 1, - 1, - 1, - 1, - 1, - 1, 1 :: rat]) \<and>
   (\<exists>m1. wave_update exact_ops (set_args 3 3 (1 / 4)) (1, 1)
            (device_memory [1, 2, 3, 4, 5, 6, 7, 8, 9] [9, 8, 7, 6, 3, 4, 3, 2, 1]
               [7, 7, 7, 7, 7, 7, 7, 7, 7] [- 1, - 1, - 1, - 1, - 1, - 1, - 1, - 1, 1]) = Some m1) \<and>
   (0::int) \<le> 1 * 3 + 1 - 3 \<and> (1::int) * 3 + 1 + 3 < 3 * 3 \<and>
   \<not> inside 3 3 (3, 0) \<and>
   wave_update exact_ops (set_args 3 3 (1 / 4)) (3, 0) (device_memory [] [] [] []) =
     Some (device_memory [] [] [] [])"
proof -
  let ?m = "device_memory [1, 2, 3, 4, 5, 6, 7, 8, 9] [9, 8, 7, 6, 3, 4, 3, 2, 1]
              [7, 7, 7, 7, 7, 7, 7, 7, 7] [- 1, - 1, - 1, - 1, - 1, - 1, - 1, - 1, 1 :: rat]"
  have wf: "wf_grid 3 3 ?m" by (simp add: wf_grid_def device_memory_def)
  have out: "\<not> inside 3 3 (3, 0)" by (simp add: inside_def)
  have "\<exists>m1. wave_update exact_ops (set_args 3 3 (1 / 4)) (1, 1) ?m = Some m1"
    using C10_accesses_in_bounds [OF wf, of exact_ops "1 / 4" 1 1] by blast
  moreover have "wave_update exact_ops (set_args 3 3 (1 / 4)) (3, 0) (device_memory [] [] [] []) =
     Some (device_memory [] [] [] [])"
    using C10_accesses_in_bounds [OF wf, of exact_ops "1 / 4" 3 0 "device_memory [] [] [] []"] out
    by blast
  ultimately show ?thesis using wf out by simp
qed

text \<open>
  Without the bound on the cell count the claim fails: on a grid of 65536 by 65536 cells
  with buffers of \<open>W * H\<close> floats, the work item of row 32768 and column 0 passes the
  bounds check, its index \<open>32768 * 65536 = 2\<^sup>3\<^sup>1\<close> wraps to \<open>- 2\<^sup>3\<^sup>1\<close>, and the read of
  \<open>elevation[idx]\<close> leaves the buffer.
\<close>

theorem C10_huge_grid_counterexample:
  "(1::int) \<le> 65536 \<and>
   length (replicate (nat (65536 * 65536)) (0::rat)) = nat (65536 * 65536) \<and>
   inside 65536 65536 (0, 32768) \<and>
   wave_update exact_ops (set_args 65536 65536 (1 / 4)) (0, 32768)
     (device_memory (replicate (nat (65536 * 65536)) 0) (replicate (nat (65536 * 65536)) 0)
        (replicate (nat (65536 * 65536)) 0) (replicate (nat (65536 * 65536)) 0)) = None"
  by (simp add: inside_def wave_update_def set_args_def int32_def rd_def device_memory_def)

section \<open>The run\<close>

lemma dispatches_replicate:
  "length (filter is_dispatch (concat (replicate n (timestep kern W H)))) = n"
  by (induction n) (simp_all add: timestep_def)

text \<open>
  C8. \<open>time_loop\<close> is a total function (its termination is proved with the measure
  \<open>TIMESTEPS - t\<close>), and from \<open>t = 0\<close> it enqueues the three commands of a timestep
  exactly \<open>T\<close> times (none when \<open>T \<le> 0\<close>), whatever the kernel arguments and the grid
  are: the queue holds exactly \<open>T\<close> dispatches and \<open>3 * T\<close> commands.
\<close>

theorem C8_exactly_T_timesteps:
  "time_loop kern W H T 0 [] = concat (replicate (nat T) (timestep kern W H)) \<and>
   length (filter is_dispatch (time_loop kern W H T 0 [])) = nat T \<and>
   length (time_loop kern W H T 0 []) = 3 * nat T"
proof -
  have q: "time_loop kern W H T 0 [] = concat (replicate (nat T) (timestep kern W H))"
    by (simp add: time_loop_eq)
  have "length (concat (replicate n (timestep kern W H))) = 3 * n" for n
    by (induction n) (simp_all add: timestep_def)
  then show ?thesis unfolding q by (simp add: dispatches_replicate)
qed

text \<open>
  C2. The queue of a run is the repetition, once per iteration, of a dispatch followed by
  the copy of \<open>bufferNext\<close> into \<open>bufferPrevious\<close> and then the copy of \<open>bufferCurrent\<close> into
  \<open>bufferNext\<close>. After the dispatch, the two copies give \<open>previous\<close> the contents of
  \<open>next\<close> and then \<open>next\<close> the contents of \<open>current\<close>. After every prefix of the queue, that
  is at every point of the run, \<open>bufferCurrent\<close> holds what it held at the start.
\<close>

theorem C2_previous_gets_next_then_next_gets_current:
  assumes "wf_grid W H m"
  shows "time_loop (set_args W H c) W H T 0 [] =
           concat (replicate (nat T)
             [NDRangeKernel (set_args W H c) (size_t W) (size_t H),
              CopyBuffer bufferNext bufferPrevious (grid_size W H),
              CopyBuffer bufferCurrent bufferNext (grid_size W H)]) \<and>
         (\<exists>m1. exec ops (NDRangeKernel (set_args W H c) (size_t W) (size_t H)) m = Some m1 \<and>
            m1 bufferCurrent = m bufferCurrent \<and>
            finish ops [CopyBuffer bufferNext bufferPrevious (grid_size W H),
                        CopyBuffer bufferCurrent bufferNext (grid_size W H)] m1 =
              Some ((m1(bufferPrevious := m1 bufferNext))(bufferNext := m1 bufferCurrent))) \<and>
         (\<forall>n. \<exists>m'. finish ops (take n (time_loop (set_args W H c) W H T 0 [])) m = Some m' \<and>
            m' bufferCurrent = m bufferCurrent)"
proof -
  have A: "time_loop (set_args W H c) W H T 0 [] =
           concat (replicate (nat T)
             [NDRangeKernel (set_args W H c) (size_t W) (size_t H),
              CopyBuffer bufferNext bufferPrevious (grid_size W H),
              CopyBuffer bufferCurrent bufferNext (grid_size W H)])"
    by (simp add: time_loop_eq timestep_def)
  let ?m1 = "m(bufferNext := map (stencil ops W H c m) [0..<nat (W * H)])"
  have wf1: "wf_grid W H ?m1" by (rule wf_grid_upd [OF assms]) simp
  have wf2: "wf_grid W H (?m1(bufferPrevious := ?m1 bufferNext))" by (rule wf_grid_upd [OF wf1]) simp
  have "finish ops [CopyBuffer bufferNext bufferPrevious (grid_size W H),
                    CopyBuffer bufferCurrent bufferNext (grid_size W H)] ?m1 =
          Some ((?m1(bufferPrevious := ?m1 bufferNext))(bufferNext := ?m1 bufferCurrent))"
    unfolding finish.simps copy_buffer [OF wf1] option.case copy_buffer [OF wf2] by simp
  then have B: "\<exists>m1. exec ops (NDRangeKernel (set_args W H c) (size_t W) (size_t H)) m = Some m1 \<and>
            m1 bufferCurrent = m bufferCurrent \<and>
            finish ops [CopyBuffer bufferNext bufferPrevious (grid_size W H),
                        CopyBuffer bufferCurrent bufferNext (grid_size W H)] m1 =
              Some ((m1(bufferPrevious := m1 bufferNext))(bufferNext := m1 bufferCurrent))"
    unfolding dispatch [OF assms] by (intro exI [of _ ?m1]) simp
  have C: "\<exists>m'. finish ops (take n (time_loop (set_args W H c) W H T 0 [])) m = Some m' \<and>
            m' bufferCurrent = m bufferCurrent" for n
  proof -
    have "set (take n (time_loop (set_args W H c) W H T 0 [])) \<subseteq> set (timestep (set_args W H c) W H)"
      using set_take_subset set_time_loop by (rule subset_trans)
    from finish_keeps_current [OF assms this, of ops] show ?thesis by blast
  qed
  from A B C show ?thesis by blast
qed

theorem C2_previous_gets_next_then_next_gets_current_witness:
  "wf_grid 3 3 (device_memory [0, 0, 0, 0, 1, 0, 0, 0, 0] [0, 0, 0, 0, 1, 0, 0, 0, 0]
                  [7, 7, 7, 7, 7, 7, 7, 7, 7] [- 1, - 1, - 1, - 1, - 1, - 1, - 1, - 1, - 1 :: rat]) \<and>
   length (time_loop (set_args 3 3 (1 / 4 :: rat)) 3 3 2 0 []) = 6 \<and>
   (\<exists>m'. finish exact_ops (take 4 (time_loop (set_args 3 3 (1 / 4)) 3 3 2 0 []))
            (device_memory [0, 0, 0, 0, 1, 0, 0, 0, 0] [0, 0, 0, 0, 1, 0, 0, 0, 0]
               [7, 7, 7, 7, 7, 7, 7, 7, 7] [- 1, - 1, - 1, - 1, - 1, - 1, - 1, - 1, - 1]) = Some m' \<and>
          m' bufferCurrent = [0, 0, 0, 0, 1, 0, 0, 0, 0])"
proof -
  let ?m = "device_memory [0, 0, 0, 0, 1, 0, 0, 0, 0] [0, 0, 0, 0, 1, 0, 0, 0, 0]
              [7, 7, 7, 7, 7, 7, 7, 7, 7] [- 1, - 1, - 1, - 1, - 1, - 1, - 1, - 1, - 1 :: rat]"
  have wf: "wf_grid 3 3 ?m" by (simp add: wf_grid_def device_memory_def)
  note inst = C2_previous_gets_next_then_next_gets_current [OF wf, of "1 / 4" 2 exact_ops]
  have cur: "?m bufferCurrent = [0, 0, 0, 0, 1, 0, 0, 0, 0]" by (simp add: device_memory_def)
  have "time_loop (set_args 3 3 (1 / 4 :: rat)) 3 3 2 0 [] =
           concat (replicate (nat 2)
             [NDRangeKernel (set_args 3 3 (1 / 4)) (size_t 3) (size_t 3),
              CopyBuffer bufferNext bufferPrevious (grid_size 3 3),
              CopyBuffer bufferCurrent bufferNext (grid_size 3 3)])"
    using inst by (rule conjunct1)
  then have "length (time_loop (set_args 3 3 (1 / 4 :: rat)) 3 3 2 0 []) = 6"
    by (simp add: numeral_2_eq_2)
  moreover have "\<exists>m'. finish exact_ops (take 4 (time_loop (set_args 3 3 (1 / 4)) 3 3 2 0 [])) ?m = Some m' \<and>
          m' bufferCurrent = [0, 0, 0, 0, 1, 0, 0, 0, 0]"
    using inst unfolding cur by blast
  ultimately show ?thesis using wf by blast
qed

lemma run_result:
  assumes "1 \<le> W" "1 \<le> H" "W * H < 2 ^ 31"
    and "length current = nat (W * H)" "length previous = nat (W * H)"
    and "length elevation = nat (W * H)"
  shows "run ops W H T k current previous elevation junk = Some current"
proof -
  let ?m0 = "device_memory current previous (map junk [0..<nat (W * H)]) elevation"
  note cb = create_buffers_wf [OF assms, of junk]
  obtain m' where m': "finish ops (time_loop (set_args W H k) W H T 0 []) ?m0 = Some m'"
    "wf_grid W H m'" "m' bufferCurrent = ?m0 bufferCurrent"
    using finish_keeps_current [OF cb(2) set_time_loop, of ops k T] by blast
  have sim: "simulate ops W H T k current previous elevation junk = Some m'"
    unfolding simulate_def cb(1) using m'(1) by simp
  have "m' bufferCurrent = current" using m'(3) by (simp add: device_memory_def)
  then show ?thesis
    using assms(4) by (simp add: run_def sim enqueueReadBuffer_def grid_size_wf [OF assms(1-3)])
qed

lemma length_init_cell:
  "init_cell ops ij (a, b, c) = (a', b', c') \<Longrightarrow>
   length a' = length a \<and> length b' = length b \<and> length c' = length c"
  by (auto simp: init_cell_def Let_def split: if_splits)

lemma length_fold_init_cell:
  "fold (init_cell ops) cells (a, b, c) = (a', b', c') \<Longrightarrow>
   length a' = length a \<and> length b' = length b \<and> length c' = length c"
proof (induction cells arbitrary: a b c)
  case Nil
  then show ?case by simp
next
  case (Cons ij cells)
  obtain a1 b1 c1 where s: "init_cell ops ij (a, b, c) = (a1, b1, c1)" by (cases "init_cell ops ij (a, b, c)")
  from Cons.prems have "fold (init_cell ops) cells (a1, b1, c1) = (a', b', c')" by (simp add: s)
  from Cons.IH [OF this] length_init_cell [OF s] show ?case by simp
qed

lemma grid_size_main: "grid_size WIDTH HEIGHT = nat (WIDTH * HEIGHT)"
  by (rule grid_size_wf) (simp_all add: WIDTH_def HEIGHT_def)

lemma main_result:
  "main ops junk = Some (fst (init_grid ops))"
proof -
  obtain a b c where g: "init_grid ops = (a, b, c)" by (cases "init_grid ops")
  then have "length a = grid_size WIDTH HEIGHT \<and> length b = grid_size WIDTH HEIGHT \<and>
             length c = grid_size WIDTH HEIGHT"
    unfolding init_grid_def by (drule_tac length_fold_init_cell) simp
  then have len: "length a = nat (WIDTH * HEIGHT)" "length b = nat (WIDTH * HEIGHT)"
    "length c = nat (WIDTH * HEIGHT)"
    by (simp_all only: grid_size_main)
  have "run ops WIDTH HEIGHT TIMESTEPS (dt_dx2 ops (WAVE_SPEED ops) (DT ops) (DX ops)) a b c junk = Some a"
    by (rule run_result [OF _ _ _ len]) (simp_all add: WIDTH_def HEIGHT_def)
  then show ?thesis by (simp add: main_def g)
qed


text \<open>
  C3. For every number of timesteps \<open>T\<close> (also \<open>T = 0\<close>), on a grid with \<open>W, H \<ge> 1\<close> whose
  cell count is an \<open>int\<close> and host vectors of \<open>W * H\<close> floats, the run completes and the
  array read back from \<open>bufferCurrent\<close> is the initial displacement field, cell for cell.
  For the constants and the initial fields of \<open>main\<close> itself, the array read back is the
  \<open>current\<close> vector as the initialisation loop left it.
\<close>

theorem C3_readback_is_initial_field:
  assumes "1 \<le> W" "1 \<le> H" "W * H < 2 ^ 31"
    and "length current = nat (W * H)" "length previous = nat (W * H)"
    and "length elevation = nat (W * H)"
  shows "run ops W H T k current previous elevation junk = Some current \<and>
         main ops junk = Some (fst (init_grid ops))"
  using run_result [OF assms] main_result by blast

theorem C3_readback_is_initial_field_witness:
  "(1::int) \<le> 3 \<and> (3::int) * 3 < 2 ^ 31 \<and> length [0, 0, 0, 0, 1, 0, 0, 0, 0 :: rat] = nat (3 * 3) \<and>
   length [- 1, - 1, - 1, - 1, - 1, - 1, - 1, - 1, - 1 :: rat] = nat (3 * 3) \<and>
   run exact_ops 3 3 5 (1 / 4) [0, 0, 0, 0, 1, 0, 0, 0, 0] [0, 0, 0, 0, 1, 0, 0, 0, 0]
     [- 1, - 1, - 1, - 1, - 1, - 1, - 1, - 1, - 1] (\<lambda>n. 7) = Some [0, 0, 0, 0, 1, 0, 0, 0, 0]"
  using C3_readback_is_initial_field [of 3 3 "[0, 0, 0, 0, 1, 0, 0, 0, 0 :: rat]"
      "[0, 0, 0, 0, 1, 0, 0, 0, 0]" "[- 1, - 1, - 1, - 1, - 1, - 1, - 1, - 1, - 1]"
      exact_ops 5 "1 / 4" "\<lambda>n. 7"]
  by simp

lemma simulate_first_step:
  assumes "1 \<le> W" "1 \<le> H" "W * H < 2 ^ 31"
    and "length current = nat (W * H)" "length previous = nat (W * H)"
    and "length elevation = nat (W * H)" and T: "1 \<le> T"
  shows "simulate ops W H T k current previous elevation junk =
           finish ops (concat (replicate (nat T - 1) (timestep (set_args W H k) W H)))
             (device_memory current
                (map (stencil ops W H k (device_memory current previous [] elevation)) [0..<nat (W * H)])
                current elevation)"
proof -
  let ?m0 = "device_memory current previous (map junk [0..<nat (W * H)]) elevation"
  let ?ts = "timestep (set_args W H k) W H"
  note cb = create_buffers_wf [OF assms(1-6), of junk]
  have "nat T = Suc (nat T - 1)" using T by simp
  then have q: "time_loop (set_args W H k) W H T 0 [] = ?ts @ concat (replicate (nat T - 1) ?ts)"
    by (simp add: time_loop_eq) (metis concat.simps(2) replicate_Suc)
  have st: "stencil ops W H k ?m0 = stencil ops W H k (device_memory current previous [] elevation)"
    by (rule stencil_cong) (simp_all add: device_memory_def)
  have "finish ops ?ts ?m0 =
          Some (device_memory current
                 (map (stencil ops W H k (device_memory current previous [] elevation)) [0..<nat (W * H)])
                 current elevation)"
    unfolding timestep_effect [OF cb(2)] st by (simp add: device_memory_def)
  then show ?thesis
    unfolding simulate_def cb(1) q by (simp add: finish_append)
qed

text \<open>
  C9. The only input of a run that the caller does not fix is what the uninitialised
  \<open>bufferNext\<close> holds at creation (\<open>junk\<close>). Two runs with the same \<open>W\<close>, \<open>H\<close>, \<open>T\<close>, \<open>k\<close>,
  elevation and initial fields complete and read back identical arrays whatever
  \<open>bufferNext\<close> held; as soon as one timestep runs, all four device buffers are identical
  at the end of the two runs. (That the order of the work items within a dispatch does
  not matter either is C7.)
\<close>

theorem C9_deterministic:
  assumes "1 \<le> W" "1 \<le> H" "W * H < 2 ^ 31"
    and "length current = nat (W * H)" "length previous = nat (W * H)"
    and "length elevation = nat (W * H)"
  shows "run ops W H T k current previous elevation junk =
           run ops W H T k current previous elevation junk' \<and>
         (\<exists>out. run ops W H T k current previous elevation junk = Some out) \<and>
         (1 \<le> T \<longrightarrow>
            simulate ops W H T k current previous elevation junk =
              simulate ops W H T k current previous elevation junk')"
  using run_result [OF assms, of ops T k junk] run_result [OF assms, of ops T k junk']
    simulate_first_step [OF assms, of T ops k junk] simulate_first_step [OF assms, of T ops k junk']
  by simp

theorem C9_deterministic_witness:
  "(1::int) \<le> 3 \<and> (3::int) * 3 < 2 ^ 31 \<and> length [0, 0, 0, 0, 1, 0, 0, 0, 0 :: rat] = nat (3 * 3) \<and>
   length [- 1, - 1, - 1, - 1, - 1, - 1, - 1, - 1, - 1 :: rat] = nat (3 * 3) \<and> (1::int) \<le> 5 \<and>
   run exact_ops 3 3 5 (1 / 4) [0, 0, 0, 0, 1, 0, 0, 0, 0] [0, 0, 0, 0, 1, 0, 0, 0, 0]
     [- 1, - 1, - 1, - 1, - 1, - 1, - 1, - 1, - 1] (\<lambda>n. 7) =
   run exact_ops 3 3 5 (1 / 4) [0, 0, 0, 0, 1, 0, 0, 0, 0] [0, 0, 0, 0, 1, 0, 0, 0, 0]
     [- 1, - 1, - 1, - 1, - 1, - 1, - 1, - 1, - 1] rat_of_nat \<and>
   simulate exact_ops 3 3 5 (1 / 4) [0, 0, 0, 0, 1, 0, 0, 0, 0] [0, 0, 0, 0, 1, 0, 0, 0, 0]
     [- 1, - 1, - 1, - 1, - 1, - 1, - 1, - 1, - 1] (\<lambda>n. 7) =
   simulate exact_ops 3 3 5 (1 / 4) [0, 0, 0, 0, 1, 0, 0, 0, 0] [0, 0, 0, 0, 1, 0, 0, 0, 0]
     [- 1, - 1, - 1, - 1, - 1, - 1, - 1, - 1, - 1] rat_of_nat"
  using C9_deterministic [of 3 3 "[0, 0, 0, 0, 1, 0, 0, 0, 0 :: rat]"
      "[0, 0, 0, 0, 1, 0, 0, 0, 0]" "[- 1, - 1, - 1, - 1, - 1, - 1, - 1, - 1, - 1]"
      exact_ops 5 "1 / 4" "\<lambda>n. 7" rat_of_nat]
  by simp

text \<open>
  C1 (the code departs from it). One timestep on a 3 by 3 grid of water whose current and
  previous fields are 1 at the centre and 0 elsewhere, with \<open>k = 0.25\<close>. The dispatch
  stores the all-zero field in the scratch buffer. After the timestep the buffer bound
  to the kernel's \<open>current\<close> argument is still \<open>bufferCurrent\<close> and still holds the
  initial field, not the stencil output; \<open>bufferPrevious\<close> holds the stencil output, not
  the field that was current; and the second dispatch of the queue carries the same
  argument bindings as the first. The roles do not rotate.
\<close>

theorem C1_roles_do_not_rotate:
  "map_option (enqueueReadBuffer bufferNext 9)
     (exec exact_ops (NDRangeKernel (set_args 3 3 (1 / 4)) (size_t 3) (size_t 3))
        (device_memory [0, 0, 0, 0, 1, 0, 0, 0, 0] [0, 0, 0, 0, 1, 0, 0, 0, 0]
           [7, 7, 7, 7, 7, 7, 7, 7, 7] [- 1, - 1, - 1, - 1, - 1, - 1, - 1, - 1, - 1]))
     = Some [0, 0, 0, 0, 0, 0, 0, 0, 0] \<and>
   map_option (enqueueReadBuffer bufferCurrent 9)
     (finish exact_ops (timestep (set_args 3 3 (1 / 4)) 3 3)
        (device_memory [0, 0, 0, 0, 1, 0, 0, 0, 0] [0, 0, 0, 0, 1, 0, 0, 0, 0]
           [7, 7, 7, 7, 7, 7, 7, 7, 7] [- 1, - 1, - 1, - 1, - 1, - 1, - 1, - 1, - 1]))
     = Some [0, 0, 0, 0, 1, 0, 0, 0, 0] \<and>
   map_option (enqueueReadBuffer bufferPrevious 9)
     (finish exact_ops (timestep (set_args 3 3 (1 / 4)) 3 3)
        (device_memory [0, 0, 0, 0, 1, 0, 0, 0, 0] [0, 0, 0, 0, 1, 0, 0, 0, 0]
           [7, 7, 7, 7, 7, 7, 7, 7, 7] [- 1, - 1, - 1, - 1, - 1, - 1, - 1, - 1, - 1]))
     = Some [0, 0, 0, 0, 0, 0, 0, 0, 0] \<and>
   map_option (enqueueReadBuffer bufferNext 9)
     (finish exact_ops (timestep (set_args 3 3 (1 / 4)) 3 3)
        (device_memory [0, 0, 0, 0, 1, 0, 0, 0, 0] [0, 0, 0, 0, 1, 0, 0, 0, 0]
           [7, 7, 7, 7, 7, 7, 7, 7, 7] [- 1, - 1, - 1, - 1, - 1, - 1, - 1, - 1, - 1]))
     = Some [0, 0, 0, 0, 1, 0, 0, 0, 0] \<and>
   time_loop (set_args 3 3 (1 / 4 :: rat)) 3 3 2 0 [] =
     [NDRangeKernel (set_args 3 3 (1 / 4)) 3 3, CopyBuffer bufferNext bufferPrevious 9,
      CopyBuffer bufferCurrent bufferNext 9,
      NDRangeKernel (set_args 3 3 (1 / 4)) 3 3, CopyBuffer bufferNext bufferPrevious 9,
      CopyBuffer bufferCurrent bufferNext 9] \<and>
   k_current (set_args 3 3 (1 / 4 :: rat)) = bufferCurrent \<and>
   k_previous (set_args 3 3 (1 / 4 :: rat)) = bufferPrevious \<and>
   k_next (set_args 3 3 (1 / 4 :: rat)) = bufferNext"
  by code_simp

end
